theory Spec2Isabelle
  imports Complex_Main
begin

unbundle bit_operations_syntax

section \<open>Data model of the preview page\<close>

text \<open>
  The page \<^verbatim>\<open>src/routes/+page.svelte\<close> keeps four script variables
  (\<^verbatim>\<open>uploadedImages\<close>, \<^verbatim>\<open>selectedId\<close>, \<^verbatim>\<open>canvas\<close>, \<^verbatim>\<open>animationSeed\<close>) and the
  constant object \<^verbatim>\<open>effectSettings\<close>, whose fields the sliders mutate. Its handlers also
  act on two stores of the browser: the blob-URL store behind \<^verbatim>\<open>URL.createObjectURL\<close> and
  \<^verbatim>\<open>URL.revokeObjectURL\<close>, and the downloads started by \<^verbatim>\<open>link.click()\<close>. Both are
  fields of the state below, so that every effect of a handler is visible in its result.

  The fields of \<^verbatim>\<open>UploadedImage\<close> carry the prefix \<open>img_\<close> (\<open>id\<close> and \<open>size\<close> are constants of
  HOL), those of a browser \<^verbatim>\<open>File\<close> the prefix \<open>file_\<close>. Strings are lists of characters.
\<close>

record UploadedImage =
  img_id :: string
  img_name :: string
  img_size :: nat
  img_type :: string
  img_url :: string

record File =
  file_name :: string
  file_size :: nat
  file_type :: string

record Canvas =
  canvas_width :: nat
  canvas_height :: nat

record EffectSettings =
  intensity :: real
  grain :: real
  tint :: string

datatype Blob = Blob (blob_bytes: "nat list")

record state =
  uploadedImages :: "UploadedImage list"
  selectedId :: "string option"
  canvas :: "Canvas option"
  animationSeed :: int
  effectSettings :: EffectSettings
  objectURLs :: "string set"
  downloads :: "(string \<times> string) list"

text \<open>
  The state of a freshly created component (lines 12 to 21). \<^verbatim>\<open>canvas\<close> is \<^verbatim>\<open>null\<close> until the
  element is bound; a canvas element starts with the default size 300 by 150.
\<close>

definition init_state :: state where
  "init_state =
     \<lparr>uploadedImages = [], selectedId = None, canvas = None, animationSeed = 0,
      effectSettings = \<lparr>intensity = 55 / 100, grain = 25 / 100, tint = ''#7c3aed''\<rparr>,
      objectURLs = {}, downloads = []\<rparr>"

definition bind_canvas :: "state \<Rightarrow> state" where
  "bind_canvas s = s\<lparr>canvas := Some \<lparr>canvas_width = 300, canvas_height = 150\<rparr>\<rparr>"

section \<open>The image registry\<close>

text \<open>
  \<^verbatim>\<open>addFiles\<close> (lines 45 to 62). The argument is the \<^verbatim>\<open>FileList | null\<close> of the event; each
  file comes with the two values the browser hands out for it inside the loop: the URL
  returned by \<^verbatim>\<open>URL.createObjectURL(file)\<close> and the string returned by
  \<^verbatim>\<open>crypto.randomUUID()\<close>. \<^verbatim>\<open>!selectedId\<close> holds for \<^verbatim>\<open>null\<close> and for the empty string.
\<close>

type_synonym ingested = "File \<times> string \<times> string"

definition nextImages :: "ingested list \<Rightarrow> UploadedImage list" where
  "nextImages files =
     map (\<lambda>(file, url, uuid).
            \<lparr>img_id = uuid, img_name = file_name file, img_size = file_size file,
             img_type = file_type file, img_url = url\<rparr>) files"

definition created_urls :: "ingested list \<Rightarrow> string list" where
  "created_urls files = map (\<lambda>(file, url, uuid). url) files"

definition falsy :: "string option \<Rightarrow> bool" where
  "falsy v = (case v of None \<Rightarrow> True | Some str \<Rightarrow> str = [])"

definition addFiles :: "ingested list option \<Rightarrow> state \<Rightarrow> state" where
  "addFiles files s =
     (case files of
        None \<Rightarrow> s
      | Some fs \<Rightarrow>
          if length fs = 0 then s
          else
            let s1 = s\<lparr>objectURLs := objectURLs s \<union> set (created_urls fs)\<rparr>;
                s2 = s1\<lparr>uploadedImages := uploadedImages s1 @ nextImages fs\<rparr>
            in if falsy (selectedId s2) \<and> length (nextImages fs) \<noteq> 0
               then s2\<lparr>selectedId := Some (img_id (hd (nextImages fs)))\<rparr>
               else s2)"

text \<open>The click handler of a file card (line 203): \<^verbatim>\<open>selectedId = image.id\<close>.\<close>

definition select_image :: "UploadedImage \<Rightarrow> state \<Rightarrow> state" where
  "select_image img s = s\<lparr>selectedId := Some (img_id img)\<rparr>"

text \<open>\<^verbatim>\<open>selectedImage\<close> (line 69): \<^verbatim>\<open>Array.prototype.find\<close> with strict equality.\<close>

definition selectedImage :: "state \<Rightarrow> UploadedImage option" where
  "selectedImage s = find (\<lambda>img. Some (img_id img) = selectedId s) (uploadedImages s)"

text \<open>
  \<^verbatim>\<open>removeAll\<close> (lines 160 to 167): every URL of a record is revoked, the list and the
  selection are cleared, and a bound canvas gets the size 0 by 0.
\<close>

definition removeAll :: "state \<Rightarrow> state" where
  "removeAll s =
     (let s1 = s\<lparr>objectURLs := objectURLs s - set (map img_url (uploadedImages s))\<rparr>;
          s2 = s1\<lparr>uploadedImages := []\<rparr>;
          s3 = s2\<lparr>selectedId := None\<rparr>
      in case canvas s3 of
           None \<Rightarrow> s3
         | Some c \<Rightarrow> s3\<lparr>canvas := Some (c\<lparr>canvas_height := 0, canvas_width := 0\<rparr>)\<rparr>)"

section \<open>Export\<close>

text \<open>
  \<^verbatim>\<open>downloadPreview\<close> (lines 134 to 144) is asynchronous. Up to the \<^verbatim>\<open>await\<close> it only
  tests its guard and asks the canvas for a blob; \<open>downloadPreview_starts\<close> is that guard.
  \<open>downloadPreview_resume\<close> is the code after the \<^verbatim>\<open>await\<close>, run with the blob the canvas
  delivered (\<^verbatim>\<open>null\<close> is \<open>None\<close>) and the URL that \<^verbatim>\<open>URL.createObjectURL(blob)\<close> returns.
  It reads \<^verbatim>\<open>selectedImage()\<close> again, in the state of that moment. \<open>downloadPreview\<close> is
  the whole call: the guard is tested in the state \<open>s\<close> of the call, the code after the
  \<^verbatim>\<open>await\<close> runs in the state \<open>resumed\<close> that the page has when the blob arrives, which is
  \<open>s\<close> itself only when no other handler ran in between.
\<close>

definition downloadPreview_starts :: "state \<Rightarrow> bool" where
  "downloadPreview_starts s \<longleftrightarrow> \<not> (canvas s = None \<or> selectedImage s = None)"

definition downloadPreview_resume :: "Blob option \<Rightarrow> string \<Rightarrow> state \<Rightarrow> state" where
  "downloadPreview_resume blob url s =
     (case blob of
        None \<Rightarrow> s
      | Some b \<Rightarrow>
          let s1 = s\<lparr>objectURLs := insert url (objectURLs s)\<rparr>;
              download = (case selectedImage s1 of
                            Some img \<Rightarrow> img_name img
                          | None \<Rightarrow> ''preview'') @ ''.png'';
              s2 = s1\<lparr>downloads := downloads s1 @ [(download, url)]\<rparr>
          in s2\<lparr>objectURLs := objectURLs s2 - {url}\<rparr>)"

definition downloadPreview :: "Blob option \<Rightarrow> string \<Rightarrow> state \<Rightarrow> state \<Rightarrow> state" where
  "downloadPreview blob url s resumed =
     (if downloadPreview_starts s then downloadPreview_resume blob url resumed else resumed)"

text \<open>\<^verbatim>\<open>downloadOriginal\<close> (lines 146 to 153).\<close>

definition downloadOriginal :: "state \<Rightarrow> state" where
  "downloadOriginal s =
     (case selectedImage s of
        None \<Rightarrow> s
      | Some current \<Rightarrow> s\<lparr>downloads := downloads s @ [(img_name current, img_url current)]\<rparr>)"

section \<open>Numbers\<close>

text \<open>
  A number of the script is an IEEE double. The model keeps the real value of a finite
  double and makes the rounding explicit: \<open>fl\<close> is the rounding of a real result to a
  double, applied by every arithmetic operator (\<open>fadd\<close>, \<open>fmul\<close>, \<open>fdiv\<close>) and to
  every decimal literal. \<^verbatim>\<open>Math.min\<close>, \<^verbatim>\<open>Math.max\<close>, \<^verbatim>\<open>Math.abs\<close>, \<^verbatim>\<open>Math.round\<close> and the
  remainder \<^verbatim>\<open>%\<close> return their exact results. \<^verbatim>\<open>Math.round\<close> rounds a half upwards,
  as \<^const>\<open>round\<close> does. \<open>fl\<close>, and the library functions \<^verbatim>\<open>Math.sin\<close> and
  \<^verbatim>\<open>Math.cos\<close>, are parameters of the definitions that compute with them.
\<close>

definition fadd :: "(real \<Rightarrow> real) \<Rightarrow> real \<Rightarrow> real \<Rightarrow> real" where
  "fadd fl a b = fl (a + b)"

definition fmul :: "(real \<Rightarrow> real) \<Rightarrow> real \<Rightarrow> real \<Rightarrow> real" where
  "fmul fl a b = fl (a * b)"

definition fdiv :: "(real \<Rightarrow> real) \<Rightarrow> real \<Rightarrow> real \<Rightarrow> real" where
  "fdiv fl a b = fl (a / b)"

text \<open>
  The remainder \<^verbatim>\<open>n % d\<close> of finite numbers: \<^verbatim>\<open>NaN\<close> (here \<open>None\<close>) for a zero divisor,
  otherwise \<open>n - d * q\<close> with the quotient \<open>q\<close> truncated towards zero.
\<close>

definition trunc :: "real \<Rightarrow> int" where
  "trunc x = (if x < 0 then \<lceil>x\<rceil> else \<lfloor>x\<rfloor>)"

definition js_rem :: "real \<Rightarrow> real \<Rightarrow> real option" where
  "js_rem n d = (if d = 0 then None else Some (n - d * of_int (trunc (n / d))))"

text \<open>
  What the proofs assume of the rounding: a real number in the range of the normal doubles
  is rounded with a relative error of at most \<open>2\<^sup>-\<^sup>5\<^sup>3\<close>, and a natural number up to
  \<open>2 ^ 53\<close> is a double. Rounding to nearest has both properties.
\<close>

definition double_rounding :: "(real \<Rightarrow> real) \<Rightarrow> bool" where
  "double_rounding fl \<longleftrightarrow>
     (\<forall>x. 1 / 2 ^ 1022 \<le> \<bar>x\<bar> \<and> \<bar>x\<bar> \<le> 2 ^ 1023 \<longrightarrow> \<bar>fl x - x\<bar> \<le> \<bar>x\<bar> / 2 ^ 53) \<and>
     (\<forall>n::nat. n \<le> 2 ^ 53 \<longrightarrow> fl (real n) = real n)"

text \<open>
  What the proofs assume of \<^verbatim>\<open>Math.sin\<close>: it returns 0 at 0, as the language requires, and
  on arguments up to 2 in magnitude it is within \<open>2\<^sup>-\<^sup>2\<^sup>0\<close> of the sine.
\<close>

definition sin_accurate :: "(real \<Rightarrow> real) \<Rightarrow> bool" where
  "sin_accurate math_sin \<longleftrightarrow>
     math_sin 0 = 0 \<and> (\<forall>x. \<bar>x\<bar> \<le> 2 \<longrightarrow> \<bar>math_sin x - sin x\<bar> \<le> 1 / 2 ^ 20)"

section \<open>Colours\<close>

















section \<open>Rendering\<close>

text \<open>
  \<^verbatim>\<open>drawPreview\<close> (lines 71 to 96) returns at once unless the canvas is bound and an image
  is selected, and again when \<^verbatim>\<open>canvas.getContext('2d')\<close> gives no context; otherwise it
  starts to decode the selected image from its URL. \<open>has_ctx\<close> tells whether the canvas
  gives a context, and \<open>drawPreview\<close> is the URL whose decoding starts.
\<close>

definition drawPreview :: "bool \<Rightarrow> state \<Rightarrow> string option" where
  "drawPreview has_ctx s =
     (case selectedImage s of
        None \<Rightarrow> None
      | Some current \<Rightarrow>
          if canvas s = None then None
          else if \<not> has_ctx then None
          else Some (img_url current))"

text \<open>
  The \<^verbatim>\<open>onload\<close> handler (lines 78 to 85) runs when the decoding is done.
  \<^verbatim>\<open>img.width\<close> and \<^verbatim>\<open>img.height\<close> are non-negative integers. For \<^verbatim>\<open>img.width = 0\<close> the
  quotient \<^verbatim>\<open>1024 / 0\<close> is \<^verbatim>\<open>Infinity\<close> and the minimum is 1.
\<close>

definition preview_scale :: "(real \<Rightarrow> real) \<Rightarrow> nat \<Rightarrow> real" where
  "preview_scale fl img_width =
     (let maxWidth = 1024
      in if img_width = 0 then 1 else min 1 (fdiv fl maxWidth (real img_width)))"

definition preview_width :: "(real \<Rightarrow> real) \<Rightarrow> nat \<Rightarrow> int" where
  "preview_width fl img_width =
     max 1 (round (fmul fl (real img_width) (preview_scale fl img_width)))"

definition preview_height :: "(real \<Rightarrow> real) \<Rightarrow> nat \<Rightarrow> nat \<Rightarrow> int" where
  "preview_height fl img_width img_height =
     max 1 (round (fmul fl (real img_height) (preview_scale fl img_width)))"

definition img_onload :: "(real \<Rightarrow> real) \<Rightarrow> nat \<Rightarrow> nat \<Rightarrow> state \<Rightarrow> state" where
  "img_onload fl img_width img_height s =
     (case canvas s of
        None \<Rightarrow> s
      | Some c \<Rightarrow>
          s\<lparr>canvas := Some (c\<lparr>canvas_width := nat (preview_width fl img_width),
                                canvas_height := nat (preview_height fl img_width img_height)\<rparr>)\<rparr>)"

text \<open>
  \<^verbatim>\<open>refreshDummyEffect\<close> (lines 155 to 158); the redraw it asks for is \<open>drawPreview\<close>.
  The seed is a double that holds an integer: below \<open>2 ^ 53\<close> the sum with 1 is exact, and
  at \<open>2 ^ 53\<close>, the largest seed that counting from 0 reaches, the sum rounds back to the
  seed.
\<close>

definition refreshDummyEffect :: "state \<Rightarrow> state" where
  "refreshDummyEffect s =
     s\<lparr>animationSeed := (if animationSeed s < 2 ^ 53 then animationSeed s + 1 else animationSeed s)\<rparr>"


text \<open>
  The sparkle layer of \<^verbatim>\<open>applyDummyEffect\<close> (lines 121 to 128): the rectangles that the
  loop passes to \<^verbatim>\<open>ctx.fillRect\<close>, in the order of the calls. The loop reads the seed and the
  settings from the state; \<^verbatim>\<open>width\<close> and \<^verbatim>\<open>height\<close> are its arguments. A coordinate is
  \<open>None\<close> when the remainder is \<^verbatim>\<open>NaN\<close>. The loop runs for the indices below
  \<^verbatim>\<open>sparkCount\<close>, none when that is not positive.
\<close>

record FillRect =
  rect_x :: "real option"
  rect_y :: "real option"
  rect_w :: real
  rect_h :: real

definition sparkCount :: "(real \<Rightarrow> real) \<Rightarrow> state \<Rightarrow> real \<Rightarrow> real \<Rightarrow> int" where
  "sparkCount fl s width height =
     min 1400 (round (fmul fl (fmul fl (fadd fl width height) (fl 0.2))
                              (fadd fl (fl 0.6) (grain (effectSettings s)))))"

definition spark_x :: "(real \<Rightarrow> real) \<Rightarrow> (real \<Rightarrow> real) \<Rightarrow> state \<Rightarrow> nat \<Rightarrow> real \<Rightarrow> real option" where
  "spark_x fl math_sin s i width =
     js_rem \<bar>fmul fl (math_sin (fadd fl (fmul fl (real i) (fl 12.9898))
                                         (fmul fl (of_int (animationSeed s)) (fl 1.7))))
                     (fl 43758.5453)\<bar> width"

definition spark_y :: "(real \<Rightarrow> real) \<Rightarrow> (real \<Rightarrow> real) \<Rightarrow> state \<Rightarrow> nat \<Rightarrow> real \<Rightarrow> real option" where
  "spark_y fl math_cos s i height =
     js_rem \<bar>fmul fl (math_cos (fadd fl (fmul fl (real i) (fl 78.233))
                                         (fmul fl (of_int (animationSeed s)) (fl 0.9))))
                     (fl 12345.6789)\<bar> height"

definition spark_size :: "(real \<Rightarrow> real) \<Rightarrow> state \<Rightarrow> real" where
  "spark_size fl s = fadd fl 1 (fmul fl (intensity (effectSettings s)) 2)"

definition sparkles ::
  "(real \<Rightarrow> real) \<Rightarrow> (real \<Rightarrow> real) \<Rightarrow> (real \<Rightarrow> real) \<Rightarrow> state \<Rightarrow> real \<Rightarrow> real \<Rightarrow> FillRect list" where
  "sparkles fl math_sin math_cos s width height =
     map (\<lambda>i. \<lparr>rect_x = spark_x fl math_sin s i width, rect_y = spark_y fl math_cos s i height,
               rect_w = spark_size fl s, rect_h = spark_size fl s\<rparr>)
       [0 ..< nat (sparkCount fl s width height)]"

section \<open>Reachable states\<close>

text \<open>
  What the browser hands out in \<^verbatim>\<open>addFiles\<close>: \<^verbatim>\<open>URL.createObjectURL\<close> returns a URL that
  is not in use, a new one for each call, and \<^verbatim>\<open>crypto.randomUUID\<close> returns a string of
  36 characters.
\<close>

definition fresh_batch :: "state \<Rightarrow> ingested list \<Rightarrow> bool" where
  "fresh_batch s fs \<longleftrightarrow>
     distinct (created_urls fs) \<and> set (created_urls fs) \<inter> objectURLs s = {} \<and>
     list_all (\<lambda>(file, url, uuid). length uuid = 36) fs"

text \<open>
  The states of the page: the initial one, and the result of any handler run in a
  reachable state. A file card exists for the listed images only; the sliders and the
  colour input write any setting; an \<^verbatim>\<open>onload\<close> handler or the second half of an export
  may run whenever the canvas is bound.
\<close>

inductive reachable :: "(real \<Rightarrow> real) \<Rightarrow> state \<Rightarrow> bool" for fl :: "real \<Rightarrow> real" where
  r_init: "reachable fl init_state"
| r_bind: "reachable fl s \<Longrightarrow> canvas s = None \<Longrightarrow> reachable fl (bind_canvas s)"
| r_addFiles: "reachable fl s \<Longrightarrow> fresh_batch s fs \<Longrightarrow> reachable fl (addFiles (Some fs) s)"
| r_addFiles_null: "reachable fl s \<Longrightarrow> reachable fl (addFiles None s)"
| r_select:
    "reachable fl s \<Longrightarrow> img \<in> set (uploadedImages s) \<Longrightarrow> reachable fl (select_image img s)"
| r_removeAll: "reachable fl s \<Longrightarrow> reachable fl (removeAll s)"
| r_settings: "reachable fl s \<Longrightarrow> reachable fl (s\<lparr>effectSettings := e\<rparr>)"
| r_refresh: "reachable fl s \<Longrightarrow> reachable fl (refreshDummyEffect s)"
| r_onload:
    "reachable fl s \<Longrightarrow> canvas s \<noteq> None \<Longrightarrow> reachable fl (img_onload fl img_width img_height s)"
| r_export:
    "reachable fl s \<Longrightarrow> canvas s \<noteq> None \<Longrightarrow> url \<notin> objectURLs s \<Longrightarrow>
     reachable fl (downloadPreview_resume blob url s)"
| r_downloadOriginal: "reachable fl s \<Longrightarrow> reachable fl (downloadOriginal s)"

text \<open>
  Sequences of ingestions and clear-alls, run from left to right.
\<close>

datatype registry_op = Ingest "ingested list option" | ClearAll

fun apply_op :: "state \<Rightarrow> registry_op \<Rightarrow> state" where
  "apply_op s (Ingest files) = addFiles files s"
| "apply_op s ClearAll = removeAll s"

definition run_ops :: "registry_op list \<Rightarrow> state \<Rightarrow> state" where
  "run_ops ops s = foldl apply_op s ops"

text \<open>
  The number of files passed to the ingestions that come after the last clear-all of a
  sequence (to all of them when it has none); \<^verbatim>\<open>null\<close> passes no file.
\<close>

fun files_passed :: "registry_op \<Rightarrow> nat" where
  "files_passed (Ingest None) = 0"
| "files_passed (Ingest (Some fs)) = length fs"
| "files_passed ClearAll = 0"

definition ingested_since_clear :: "registry_op list \<Rightarrow> nat" where
  "ingested_since_clear ops =
     sum_list (map files_passed (takeWhile (\<lambda>op. op \<noteq> ClearAll) (rev ops)))"

section \<open>The invariant of the registry\<close>

text \<open>
  What every handler preserves: the selection is empty exactly when no image is registered,
  a selection is the id of a registered image, no registered id is the empty string, and
  the URLs in use are those of the registered images, each held by one image.
\<close>

definition registry_inv :: "state \<Rightarrow> bool" where
  "registry_inv s \<longleftrightarrow>
     (falsy (selectedId s) \<longleftrightarrow> uploadedImages s = []) \<and>
     (case selectedId s of
        None \<Rightarrow> True
      | Some i \<Rightarrow> i \<in> set (map img_id (uploadedImages s))) \<and>
     [] \<notin> set (map img_id (uploadedImages s)) \<and>
     objectURLs s = set (map img_url (uploadedImages s)) \<and>
     distinct (map img_url (uploadedImages s))"

section \<open>Sample inputs\<close>

text \<open>Two files as the browser delivers them, and the page after the first was added.\<close>

definition photo_a :: ingested where
  "photo_a = (\<lparr>file_name = ''a.png'', file_size = 2048, file_type = ''image/png''\<rparr>,
              ''blob:a'', ''00000000-0000-4000-8000-00000000000a'')"

definition photo_b :: ingested where
  "photo_b = (\<lparr>file_name = ''b.jpg'', file_size = 4096, file_type = ''image/jpeg''\<rparr>,
              ''blob:b'', ''00000000-0000-4000-8000-00000000000b'')"

definition one_image :: state where
  "one_image = addFiles (Some [photo_a]) (bind_canvas init_state)"

section \<open>Properties of the registry\<close>

lemma map_img_id_nextImages: "map img_id (nextImages fs) = map (\<lambda>(file, url, uuid). uuid) fs"
  by (induction fs) (auto simp: nextImages_def)

lemma map_img_url_nextImages: "map img_url (nextImages fs) = created_urls fs"
  by (induction fs) (auto simp: nextImages_def created_urls_def)

lemma length_nextImages: "length (nextImages fs) = length fs"
  by (simp add: nextImages_def)

lemma inv_init: "registry_inv init_state"
  by (simp add: registry_inv_def init_state_def falsy_def)

lemma addFiles_uploadedImages:
  "fs \<noteq> [] \<Longrightarrow> uploadedImages (addFiles (Some fs) s) = uploadedImages s @ nextImages fs"
  by (simp add: addFiles_def Let_def)

lemma addFiles_objectURLs:
  "fs \<noteq> [] \<Longrightarrow> objectURLs (addFiles (Some fs) s) = objectURLs s \<union> set (created_urls fs)"
  by (simp add: addFiles_def Let_def)

lemma addFiles_selectedId:
  "fs \<noteq> [] \<Longrightarrow>
   selectedId (addFiles (Some fs) s) =
     (if falsy (selectedId s) then Some (img_id (hd (nextImages fs))) else selectedId s)"
  by (simp add: addFiles_def Let_def nextImages_def)

lemma addFiles_empty: "addFiles (Some []) s = s"
  by (simp add: addFiles_def)

lemma hd_nextImages_id: "img_id (hd (nextImages ((f, u, i) # rest))) = i"
  by (simp add: nextImages_def)

lemma fresh_batch_ids: "fresh_batch s fs \<Longrightarrow> i \<in> set (map img_id (nextImages fs)) \<Longrightarrow> i \<noteq> []"
  by (auto simp: fresh_batch_def map_img_id_nextImages list_all_iff)

lemma inv_addFiles:
  assumes inv: "registry_inv s" and fresh: "fresh_batch s fs"
  shows "registry_inv (addFiles (Some fs) s)"
proof (cases "fs = []")
  case True
  with inv show ?thesis by (simp add: addFiles_empty)
next
  case False
  let ?t = "addFiles (Some fs) s"
  have ne: "nextImages fs \<noteq> []" using False by (simp add: nextImages_def)
  have hd_in: "img_id (hd (nextImages fs)) \<in> set (map img_id (nextImages fs))"
    using ne by (cases "nextImages fs") auto
  have imgs: "uploadedImages ?t = uploadedImages s @ nextImages fs"
    using False by (rule addFiles_uploadedImages)
  have urls: "objectURLs ?t = objectURLs s \<union> set (created_urls fs)"
    using False by (rule addFiles_objectURLs)
  have sel: "selectedId ?t =
      (if falsy (selectedId s) then Some (img_id (hd (nextImages fs))) else selectedId s)"
    using False by (rule addFiles_selectedId)
  have c1: "falsy (selectedId ?t) \<longleftrightarrow> uploadedImages ?t = []"
    using ne fresh_batch_ids [OF fresh hd_in] by (simp add: sel imgs falsy_def)
  have c2: "case selectedId ?t of
      None \<Rightarrow> True
    | Some i \<Rightarrow> i \<in> set (map img_id (uploadedImages ?t))"
    using inv hd_in by (auto simp: sel imgs registry_inv_def split: option.splits)
  have c3: "objectURLs ?t = set (map img_url (uploadedImages ?t))"
    using inv by (simp add: urls imgs registry_inv_def map_img_url_nextImages)
  have c4: "distinct (map img_url (uploadedImages ?t))"
    using inv fresh by (auto simp: imgs registry_inv_def map_img_url_nextImages fresh_batch_def)
  have c5: "[] \<notin> set (map img_id (uploadedImages ?t))"
    using inv fresh_batch_ids [OF fresh] by (auto simp: imgs registry_inv_def)
  from c1 c2 c3 c4 c5 show ?thesis unfolding registry_inv_def by blast
qed

lemma inv_step:
  assumes "registry_inv s"
  shows "registry_inv (bind_canvas s)"
    and "registry_inv (addFiles None s)"
    and "registry_inv (removeAll s)"
    and "registry_inv (s\<lparr>effectSettings := e\<rparr>)"
    and "registry_inv (refreshDummyEffect s)"
    and "registry_inv (img_onload fl iw ih s)"
    and "registry_inv (downloadOriginal s)"
    and "url \<notin> objectURLs s \<Longrightarrow> registry_inv (downloadPreview_resume blob url s)"
  using assms
  by (auto simp: registry_inv_def bind_canvas_def addFiles_def removeAll_def Let_def falsy_def
      refreshDummyEffect_def img_onload_def downloadOriginal_def select_image_def
      downloadPreview_resume_def split: option.splits)

lemma inv_select_image:
  assumes inv: "registry_inv s" and img: "img \<in> set (uploadedImages s)"
  shows "registry_inv (select_image img s)"
proof -
  have "img_id img \<in> set (map img_id (uploadedImages s))" using img by simp
  moreover from this inv have "img_id img \<noteq> []" unfolding registry_inv_def by metis
  moreover have "uploadedImages s \<noteq> []" using img by auto
  ultimately show ?thesis
    using inv by (simp add: registry_inv_def select_image_def falsy_def)
qed

lemma reachable_inv: "reachable fl s \<Longrightarrow> registry_inv s"
  by (induction rule: reachable.induct)
    (simp_all add: inv_init inv_addFiles inv_step inv_select_image)

text \<open>
  Claim C3. For a non-empty batch added in a reachable state: if no image was registered
  before the call, the selection after it is the id of the first image of the batch; if
  some image was registered, the selection is the one before the call.
\<close>

theorem addFiles_selection:
  assumes "reachable fl s" and "fresh_batch s ((f, u, uuid) # rest)"
  shows "(uploadedImages s = [] \<longrightarrow>
            selectedId (addFiles (Some ((f, u, uuid) # rest)) s) = Some uuid \<and>
            img_id (hd (nextImages ((f, u, uuid) # rest))) = uuid) \<and>
         (uploadedImages s \<noteq> [] \<longrightarrow>
            selectedId (addFiles (Some ((f, u, uuid) # rest)) s) = selectedId s)"
  using reachable_inv [OF assms(1)]
  by (simp add: addFiles_selectedId hd_nextImages_id registry_inv_def)

text \<open>
  Claim C4. After \<open>removeAll\<close> no URL of a record that was registered is in use, and in a
  reachable state no URL is in use at all; no record is registered; the selection is
  empty; a bound canvas has width 0 and height 0 (an unbound one stays unbound); and the
  redraw that the change of the selection asks for starts nothing.
\<close>

theorem removeAll_clears:
  "set (map img_url (uploadedImages s)) \<inter> objectURLs (removeAll s) = {} \<and>
   (reachable fl s \<longrightarrow> objectURLs (removeAll s) = {}) \<and>
   uploadedImages (removeAll s) = [] \<and>
   selectedId (removeAll s) = None \<and>
   (\<forall>c. canvas (removeAll s) = Some c \<longrightarrow> canvas_width c = 0 \<and> canvas_height c = 0) \<and>
   (canvas (removeAll s) = None \<longleftrightarrow> canvas s = None) \<and>
   drawPreview has_ctx (removeAll s) = None"
proof -
  have "reachable fl s \<longrightarrow> objectURLs (removeAll s) = {}"
  proof
    assume "reachable fl s"
    then have "objectURLs s = set (map img_url (uploadedImages s))"
      using reachable_inv by (simp add: registry_inv_def)
    then show "objectURLs (removeAll s) = {}"
      by (simp add: removeAll_def Let_def split: option.splits)
  qed
  moreover have "set (map img_url (uploadedImages s)) \<inter> objectURLs (removeAll s) = {}"
    by (auto simp: removeAll_def Let_def split: option.splits)
  ultimately show ?thesis
    by (simp add: removeAll_def Let_def drawPreview_def selectedImage_def split: option.splits)
qed

text \<open>
  Claim C5. In every reachable state the selection is empty or is the id of a registered
  image.
\<close>

theorem selection_registered:
  assumes "reachable fl s"
  shows "selectedId s = None \<or> (\<exists>img \<in> set (uploadedImages s). selectedId s = Some (img_id img))"
  using reachable_inv [OF assms] by (cases "selectedId s") (auto simp: registry_inv_def)

lemma inv_card: "registry_inv s \<Longrightarrow> card (objectURLs s) = length (uploadedImages s)"
  using distinct_card [of "map img_url (uploadedImages s)"] by (simp add: registry_inv_def)

text \<open>
  Claim C6. In every reachable state the number of URLs in use is the number of registered
  images; adding a batch adds one URL for each new record, \<open>removeAll\<close> revokes exactly
  the URLs of the records, and the second half of an export leaves the URLs in use as
  they were: it revokes the URL it created.
\<close>

theorem handles_match_records:
  assumes "reachable fl s"
  shows "card (objectURLs s) = length (uploadedImages s) \<and>
         (\<forall>fs. fresh_batch s fs \<longrightarrow>
            card (objectURLs (addFiles (Some fs) s)) = card (objectURLs s) + length fs \<and>
            length (uploadedImages (addFiles (Some fs) s)) = length (uploadedImages s) + length fs) \<and>
         objectURLs (removeAll s) = objectURLs s - set (map img_url (uploadedImages s)) \<and>
         (\<forall>blob url. url \<notin> objectURLs s \<longrightarrow>
            objectURLs (downloadPreview_resume blob url s) = objectURLs s)"
proof -
  have inv: "registry_inv s" using assms by (rule reachable_inv)
  have a: "card (objectURLs s) = length (uploadedImages s)" using inv by (rule inv_card)
  have b: "card (objectURLs (addFiles (Some fs) s)) = card (objectURLs s) + length fs \<and>
      length (uploadedImages (addFiles (Some fs) s)) = length (uploadedImages s) + length fs"
    if fresh: "fresh_batch s fs" for fs
  proof (cases "fs = []")
    case True
    then show ?thesis by (simp add: addFiles_empty)
  next
    case False
    have "card (objectURLs (addFiles (Some fs) s)) = length (uploadedImages (addFiles (Some fs) s))"
      using inv_addFiles [OF inv fresh] by (rule inv_card)
    then show ?thesis
      using False a by (simp add: addFiles_uploadedImages length_nextImages)
  qed
  have c: "objectURLs (removeAll s) = objectURLs s - set (map img_url (uploadedImages s))"
    by (simp add: removeAll_def Let_def split: option.splits)
  have d: "objectURLs (downloadPreview_resume blob url s) = objectURLs s"
    if "url \<notin> objectURLs s" for blob url
    using that by (auto simp: downloadPreview_resume_def Let_def split: option.splits)
  from a b c d show ?thesis by blast
qed

lemma length_addFiles:
  "length (uploadedImages (addFiles files s)) = length (uploadedImages s) + files_passed (Ingest files)"
  by (cases files) (auto simp: addFiles_def Let_def length_nextImages)

lemma length_removeAll: "length (uploadedImages (removeAll s)) = 0"
  by (simp add: removeAll_def Let_def split: option.splits)

lemma run_ops_snoc: "run_ops (ops @ [op]) s = apply_op (run_ops ops s) op"
  by (simp add: run_ops_def)

lemma registry_size_from:
  "length (uploadedImages (run_ops ops s)) =
     (if ClearAll \<in> set ops then 0 else length (uploadedImages s)) + ingested_since_clear ops"
proof (induction ops rule: rev_induct)
  case Nil
  then show ?case by (simp add: run_ops_def ingested_since_clear_def)
next
  case (snoc op ops)
  show ?case
  proof (cases op)
    case (Ingest files)
    then show ?thesis
      using snoc by (simp add: run_ops_snoc length_addFiles ingested_since_clear_def)
  next
    case ClearAll
    then show ?thesis
      by (simp add: run_ops_snoc length_removeAll ingested_since_clear_def)
  qed
qed

text \<open>
  Claim C7. After any sequence of ingestions and clear-alls run from the initial state, the
  number of registered images is the number of files passed to the ingestions after the
  last clear-all (to all ingestions when the sequence has no clear-all).
\<close>

theorem registry_size:
  "length (uploadedImages (run_ops ops init_state)) = ingested_since_clear ops"
  by (simp add: registry_size_from init_state_def)

lemma selectedImage_objectURLs [simp]:
  "selectedImage (s\<lparr>objectURLs := x\<rparr>) = selectedImage s"
  by (simp add: selectedImage_def)

text \<open>
  The second half of an export reads the selection again: when another handler has
  cleared it in between, the download is named \<open>preview.png\<close>.
\<close>

lemma downloadPreview_resume_unselected:
  assumes "selectedImage s = None" and "url \<notin> objectURLs s"
  shows "downloadPreview_resume (Some b) url s = s\<lparr>downloads := downloads s @ [(''preview.png'', url)]\<rparr>"
  using assms by (simp add: downloadPreview_resume_def Let_def)

text \<open>
  Claim C8, amended. An export called with no image selected, or with no canvas bound,
  changes nothing, so starts no download; an export whose canvas delivers no blob changes
  nothing either. An export that passed its guard and whose canvas delivers a blob appends
  exactly one download and changes nothing else: it is named after the image that is
  selected when the blob arrives, with the suffix \<open>.png\<close>, and \<open>preview.png\<close> when no image
  is selected by then. When no handler ran in between, it is named after the image that
  was selected at the call.
\<close>

theorem downloadPreview_cases:
  "(selectedImage s = None \<longrightarrow> downloadPreview blob url s resumed = resumed) \<and>
   (canvas s = None \<longrightarrow> downloadPreview blob url s resumed = resumed) \<and>
   downloadPreview None url s resumed = resumed \<and>
   (downloadPreview_starts s \<longrightarrow> url \<notin> objectURLs resumed \<longrightarrow>
      downloadPreview (Some b) url s resumed =
        resumed\<lparr>downloads := downloads resumed @
          [((case selectedImage resumed of Some img \<Rightarrow> img_name img | None \<Rightarrow> ''preview'') @ ''.png'',
            url)]\<rparr>) \<and>
   (url \<notin> objectURLs s \<longrightarrow> canvas s \<noteq> None \<longrightarrow> selectedImage s = Some current \<longrightarrow>
      downloadPreview (Some b) url s s =
        s\<lparr>downloads := downloads s @ [(img_name current @ ''.png'', url)]\<rparr>)"
  by (auto simp: downloadPreview_def downloadPreview_starts_def downloadPreview_resume_def Let_def)

lemma fresh_a: "fresh_batch (bind_canvas init_state) [photo_a]"
  by (simp add: fresh_batch_def photo_a_def created_urls_def init_state_def bind_canvas_def)

lemma reachable_one_image: "reachable fl one_image"
  unfolding one_image_def
  by (intro reachable.r_addFiles reachable.r_bind reachable.r_init fresh_a)
    (simp add: init_state_def)

lemma one_image_fields:
  "uploadedImages one_image =
     [\<lparr>img_id = ''00000000-0000-4000-8000-00000000000a'', img_name = ''a.png'',
       img_size = 2048, img_type = ''image/png'', img_url = ''blob:a''\<rparr>]"
  "selectedId one_image = Some ''00000000-0000-4000-8000-00000000000a''"
  "objectURLs one_image = {''blob:a''}"
  "canvas one_image = Some \<lparr>canvas_width = 300, canvas_height = 150\<rparr>"
  "downloads one_image = []"
  by (simp_all add: one_image_def addFiles_def Let_def photo_a_def nextImages_def created_urls_def
      init_state_def bind_canvas_def falsy_def)

lemma fresh_b: "fresh_batch one_image [photo_b]"
  by (simp add: fresh_batch_def photo_b_def created_urls_def one_image_fields)

theorem addFiles_selection_witness:
  "reachable (\<lambda>x. x) (bind_canvas init_state) \<and> fresh_batch (bind_canvas init_state) [photo_a] \<and>
   uploadedImages (bind_canvas init_state) = [] \<and>
   selectedId (addFiles (Some [photo_a]) (bind_canvas init_state)) = Some (snd (snd photo_a)) \<and>
   reachable (\<lambda>x. x) one_image \<and> fresh_batch one_image [photo_b] \<and>
   uploadedImages one_image \<noteq> [] \<and>
   selectedId (addFiles (Some [photo_b]) one_image) = selectedId one_image"
proof -
  have r0: "reachable (\<lambda>x. x) (bind_canvas init_state)"
    by (intro reachable.r_bind reachable.r_init) (simp add: init_state_def)
  have f0: "fresh_batch (bind_canvas init_state)
      [(fst photo_a, fst (snd photo_a), snd (snd photo_a))]"
    using fresh_a by simp
  have e0: "uploadedImages (bind_canvas init_state) = []"
    by (simp add: init_state_def bind_canvas_def)
  have f1: "fresh_batch one_image [(fst photo_b, fst (snd photo_b), snd (snd photo_b))]"
    using fresh_b by simp
  have e1: "uploadedImages one_image \<noteq> []" by (simp add: one_image_fields)
  show ?thesis
    using addFiles_selection [OF r0 f0] addFiles_selection [OF reachable_one_image f1]
      r0 f0 e0 f1 e1 reachable_one_image
    by simp
qed

theorem removeAll_clears_witness:
  "reachable (\<lambda>x. x) one_image \<and> objectURLs one_image = {''blob:a''} \<and>
   objectURLs (removeAll one_image) = {} \<and> uploadedImages (removeAll one_image) = [] \<and>
   selectedId (removeAll one_image) = None \<and>
   canvas (removeAll one_image) = Some \<lparr>canvas_width = 0, canvas_height = 0\<rparr> \<and>
   drawPreview True (removeAll one_image) = None"
proof -
  have c: "canvas (removeAll one_image) = Some \<lparr>canvas_width = 0, canvas_height = 0\<rparr>"
    by (simp add: removeAll_def Let_def one_image_fields)
  show ?thesis
    using removeAll_clears [of one_image "\<lambda>x. x" True] reachable_one_image [of "\<lambda>x. x"] c
    by (simp add: one_image_fields)
qed

theorem selection_registered_witness:
  "reachable (\<lambda>x. x) one_image \<and> selectedId one_image \<noteq> None \<and>
   (\<exists>img \<in> set (uploadedImages one_image). selectedId one_image = Some (img_id img))"
  using selection_registered [OF reachable_one_image [of "\<lambda>x. x"]] reachable_one_image [of "\<lambda>x. x"]
  by (simp add: one_image_fields)

theorem handles_match_records_witness:
  "reachable (\<lambda>x. x) one_image \<and> card (objectURLs one_image) = 1 \<and>
   length (uploadedImages one_image) = 1 \<and> fresh_batch one_image [photo_b] \<and>
   card (objectURLs (addFiles (Some [photo_b]) one_image)) = 2 \<and>
   length (uploadedImages (addFiles (Some [photo_b]) one_image)) = 2 \<and>
   objectURLs (removeAll one_image) = {} \<and>
   objectURLs (downloadPreview_resume (Some (Blob [137, 80, 78, 71])) ''blob:c'' one_image) = {''blob:a''}"
  using handles_match_records [OF reachable_one_image [of "\<lambda>x. x"]]
    reachable_one_image [of "\<lambda>x. x"] fresh_b
  by (simp add: one_image_fields)

theorem registry_size_witness:
  "length (uploadedImages
     (run_ops [Ingest (Some [photo_a]), Ingest None, ClearAll, Ingest (Some [photo_b, photo_a])]
        init_state)) = 2"
  using registry_size [of "[Ingest (Some [photo_a]), Ingest None, ClearAll, Ingest (Some [photo_b, photo_a])]"]
  by (simp add: ingested_since_clear_def)

theorem downloadPreview_cases_witness:
  "selectedImage (bind_canvas init_state) = None \<and>
   downloadPreview (Some (Blob [137, 80, 78, 71])) ''blob:c'' (bind_canvas init_state) one_image
     = one_image \<and>
   downloadPreview None ''blob:c'' one_image one_image = one_image \<and>
   downloadPreview_starts one_image \<and>
   ''blob:c'' \<notin> objectURLs one_image \<and> ''blob:c'' \<notin> objectURLs (removeAll one_image) \<and>
   selectedImage one_image = Some (hd (uploadedImages one_image)) \<and>
   downloads (downloadPreview (Some (Blob [137, 80, 78, 71])) ''blob:c'' one_image one_image)
     = [(''a.png.png'', ''blob:c'')] \<and>
   downloads (downloadPreview (Some (Blob [137, 80, 78, 71])) ''blob:c'' one_image
       (removeAll one_image))
     = [(''preview.png'', ''blob:c'')]"
proof -
  have n: "selectedImage (bind_canvas init_state) = None"
    by (simp add: selectedImage_def init_state_def bind_canvas_def)
  have s: "selectedImage one_image = Some (hd (uploadedImages one_image))"
    by (simp add: selectedImage_def one_image_fields)
  have g: "downloadPreview_starts one_image"
    by (simp add: downloadPreview_starts_def s one_image_fields)
  have r: "selectedImage (removeAll one_image) = None"
    "objectURLs (removeAll one_image) = {}" "downloads (removeAll one_image) = []"
    by (simp_all add: selectedImage_def removeAll_def Let_def one_image_fields)
  show ?thesis
    using downloadPreview_cases [of "bind_canvas init_state" "Some (Blob [137, 80, 78, 71])"
        "''blob:c''" one_image]
      downloadPreview_cases [of one_image None "''blob:c''" one_image "Blob [137, 80, 78, 71]"
        "hd (uploadedImages one_image)"]
      downloadPreview_cases [of one_image None "''blob:c''" "removeAll one_image"
        "Blob [137, 80, 78, 71]"] n s g r
    by (simp add: one_image_fields)
qed

text \<open>
  Claim C8 as it is stated fails. With an image selected the export passes its guard; the
  clear-all handler runs while the canvas encodes the blob; the export then resumes in a
  reachable state with no image registered and none selected, and starts a download named
  \<open>preview.png\<close>, which is not the name of the image that was selected with a suffix.
\<close>

theorem downloadPreview_after_removeAll:
  "reachable (\<lambda>x. x) one_image \<and> downloadPreview_starts one_image \<and>
   reachable (\<lambda>x. x) (removeAll one_image) \<and>
   uploadedImages (removeAll one_image) = [] \<and> selectedId (removeAll one_image) = None \<and>
   selectedImage (removeAll one_image) = None \<and> downloads (removeAll one_image) = [] \<and>
   downloads (downloadPreview (Some (Blob [137, 80, 78, 71])) ''blob:c'' one_image
       (removeAll one_image))
     = [(''preview.png'', ''blob:c'')] \<and>
   selectedImage one_image = Some (hd (uploadedImages one_image)) \<and>
   img_name (hd (uploadedImages one_image)) @ ''.png'' = ''a.png.png'' \<and>
   ''preview.png'' \<noteq> img_name (hd (uploadedImages one_image)) @ ''.png''"
proof -
  have s: "selectedImage one_image = Some (hd (uploadedImages one_image))"
    by (simp add: selectedImage_def one_image_fields)
  have g: "downloadPreview_starts one_image"
    by (simp add: downloadPreview_starts_def s one_image_fields)
  have r: "selectedImage (removeAll one_image) = None"
    "uploadedImages (removeAll one_image) = []" "selectedId (removeAll one_image) = None"
    "objectURLs (removeAll one_image) = {}" "downloads (removeAll one_image) = []"
    by (simp_all add: selectedImage_def removeAll_def Let_def one_image_fields)
  have d: "downloads (downloadPreview (Some (Blob [137, 80, 78, 71])) ''blob:c'' one_image
       (removeAll one_image)) = [(''preview.png'', ''blob:c'')]"
    using g r by (simp add: downloadPreview_def downloadPreview_resume_def Let_def)
  have "reachable (\<lambda>x. x) (removeAll one_image)"
    by (rule reachable.r_removeAll) (rule reachable_one_image)
  then show ?thesis
    using reachable_one_image [of "\<lambda>x. x"] g r d s by (simp add: one_image_fields)
qed

section \<open>Properties of the colour conversion\<close>













section \<open>Properties of the scaling\<close>

lemma double_rounding_id: "double_rounding (\<lambda>x. x)"
  by (simp add: double_rounding_def)

lemma fl_nat: "double_rounding fl \<Longrightarrow> n \<le> 2 ^ 53 \<Longrightarrow> fl (real n) = real n"
  by (simp add: double_rounding_def)

lemma fl_near:
  assumes "double_rounding fl" and "1 / 2 ^ 64 \<le> x" and "x \<le> 2 ^ 64"
  shows "x * (1 - 1 / 2 ^ 53) \<le> fl x" and "fl x \<le> x * (1 + 1 / 2 ^ 53)"
proof -
  have "(0::real) < 1 / 2 ^ 64" by simp
  then have pos: "0 < x" using assms(2) by (rule less_le_trans)
  have "(1::real) / 2 ^ 1022 \<le> 1 / 2 ^ 64" by (simp add: field_simps)
  with assms(2) have "1 / 2 ^ 1022 \<le> \<bar>x\<bar>" using pos by simp
  moreover have "(2::real) ^ 64 \<le> 2 ^ 1023" by simp
  with assms(3) have "\<bar>x\<bar> \<le> 2 ^ 1023" using pos by simp
  ultimately have "\<bar>fl x - x\<bar> \<le> \<bar>x\<bar> / 2 ^ 53"
    using assms(1) unfolding double_rounding_def by blast
  with pos have "fl x - x \<le> x / 2 ^ 53" and "x - fl x \<le> x / 2 ^ 53"
    by (simp_all only: abs_le_iff abs_of_pos minus_diff_eq)
  then show "x * (1 - 1 / 2 ^ 53) \<le> fl x" and "fl x \<le> x * (1 + 1 / 2 ^ 53)"
    by (simp_all only: right_diff_distrib distrib_left mult_1_right times_divide_eq_right)
qed

lemma preview_small:
  assumes fl: "double_rounding fl" and w: "1 \<le> iw" "iw \<le> 1024" and h: "ih \<le> 2 ^ 53"
  shows "preview_scale fl iw = 1" and "preview_width fl iw = int iw"
    and "1 \<le> ih \<Longrightarrow> preview_height fl iw ih = int ih"
proof -
  have "1 \<le> fl (1024 / real iw)"
  proof (cases "iw = 1024")
    case True
    then show ?thesis using fl_nat [OF fl, of 1] by simp
  next
    case False
    with w have iw: "real iw \<le> 1023" "0 < real iw" by simp_all
    then have q: "1024 / 1023 \<le> 1024 / real iw"
      by (simp add: field_simps)
    have "1024 / real iw \<le> 1024" using w by (simp add: field_simps)
    then have "(1024 / real iw) * (1 - 1 / 2 ^ 53) \<le> fl (1024 / real iw)"
      using q by (intro fl_near(1) [OF fl]) simp_all
    moreover have "1 \<le> (1024 / 1023) * (1 - 1 / 2 ^ 53 :: real)" by simp
    moreover have "(1024 / 1023) * (1 - 1 / 2 ^ 53 :: real) \<le> (1024 / real iw) * (1 - 1 / 2 ^ 53)"
      using q by (intro mult_right_mono) simp_all
    ultimately show ?thesis by linarith
  qed
  then show s: "preview_scale fl iw = 1"
    using w by (simp add: preview_scale_def fdiv_def)
  have "iw \<le> 2 ^ 53" using w by simp
  then show "preview_width fl iw = int iw"
    using w by (simp add: preview_width_def s fmul_def fl_nat [OF fl])
  show "preview_height fl iw ih = int ih" if "1 \<le> ih"
    using that h by (simp add: preview_height_def s fmul_def fl_nat [OF fl])
qed

lemma round_near:
  fixes y :: real
  assumes "real n * (1 - 1 / 2 ^ 53) * (1 - 1 / 2 ^ 53) \<le> y"
    and "y \<le> real n * (1 + 1 / 2 ^ 53) * (1 + 1 / 2 ^ 53)" and "n \<le> 2 ^ 20"
  shows "round y = int n"
proof -
  have n: "real n \<le> 2 ^ 20" using assms(3) by simp
  have "real n * (1 - 1 / 2 ^ 53) * (1 - 1 / 2 ^ 53) = real n - real n * (2 / 2 ^ 53 - 1 / 2 ^ 106)"
    by (simp add: algebra_simps)
  moreover have "real n * (2 / 2 ^ 53 - 1 / 2 ^ 106) \<le> 2 ^ 20 * (2 / 2 ^ 53 - 1 / 2 ^ 106)"
    using n by (intro mult_right_mono) simp_all
  moreover have "real n * (1 + 1 / 2 ^ 53) * (1 + 1 / 2 ^ 53) = real n + real n * (2 / 2 ^ 53 + 1 / 2 ^ 106)"
    by (simp add: algebra_simps)
  moreover have "real n * (2 / 2 ^ 53 + 1 / 2 ^ 106) \<le> 2 ^ 20 * (2 / 2 ^ 53 + 1 / 2 ^ 106)"
    using n by (intro mult_right_mono) simp_all
  moreover have "(2::real) ^ 20 * (2 / 2 ^ 53 - 1 / 2 ^ 106) < 1 / 2"
    and "(2::real) ^ 20 * (2 / 2 ^ 53 + 1 / 2 ^ 106) < 1 / 2"
    by simp_all
  ultimately have "\<bar>y - of_int (int n)\<bar> < 1 / 2"
    using assms(1,2) by (simp only: of_int_of_nat_eq abs_less_iff) linarith
  then show ?thesis by (rule round_unique')
qed

lemma scaled_extent:
  assumes fl: "double_rounding fl" and w: "1024 < iw" "iw \<le> 2 ^ 53"
    and d: "1 \<le> e" "real e * 1024 = real n * real iw" and n: "1 \<le> n" "n \<le> 2 ^ 20"
  shows "round (fmul fl (real e) (preview_scale fl iw)) = int n"
proof -
  let ?u = "1 / 2 ^ 53 :: real"
  let ?q = "1024 / real iw"
  have iw: "0 < real iw" "1024 < real iw" "real iw \<le> 2 ^ 53"
    using w by simp_all
  have q: "1 / 2 ^ 64 \<le> ?q" "?q < 1"
    using iw by (simp_all add: field_simps)
  have flq: "?q * (1 - ?u) \<le> fl ?q" "fl ?q \<le> ?q * (1 + ?u)"
    using q by (intro fl_near [OF fl]; simp)+
  have less1: "?q * (1 - ?u) \<le> 1"
    using q by (simp add: field_simps)
  define s where "s = preview_scale fl iw"
  have s: "s = min 1 (fl ?q)"
    using w by (simp add: s_def preview_scale_def fdiv_def)
  have s_lo: "?q * (1 - ?u) \<le> s" and s_hi: "s \<le> ?q * (1 + ?u)"
    using flq less1 by (simp_all add: s min_def)
  have eq: "real e * ?q = real n"
    using d(2) iw by (simp add: field_simps)
  have e0: "0 \<le> real e" by simp
  have p_lo: "real n * (1 - ?u) \<le> real e * s"
    using mult_left_mono [OF s_lo e0] by (simp only: mult.assoc [symmetric] eq)
  have p_hi: "real e * s \<le> real n * (1 + ?u)"
    using mult_left_mono [OF s_hi e0] by (simp only: mult.assoc [symmetric] eq)
  have n1: "1 \<le> real n" "real n \<le> 2 ^ 20"
    using n by simp_all
  have "1 / 2 \<le> real n * (1 - ?u)"
    using mult_right_mono [OF n1(1), of "1 - ?u"] by simp
  with p_lo have lo: "1 / 2 ^ 64 \<le> real e * s" by simp
  have "real n * (1 + ?u) \<le> 2 ^ 20 * (1 + ?u)"
    using n1(2) by (intro mult_right_mono) simp_all
  with p_hi have hi: "real e * s \<le> 2 ^ 64" by simp
  have f_lo: "real e * s * (1 - ?u) \<le> fl (real e * s)"
    and f_hi: "fl (real e * s) \<le> real e * s * (1 + ?u)"
    using fl_near [OF fl lo hi] by simp_all
  have "real n * (1 - ?u) * (1 - ?u) \<le> real e * s * (1 - ?u)"
    using p_lo by (intro mult_right_mono) simp_all
  moreover have "real e * s * (1 + ?u) \<le> real n * (1 + ?u) * (1 + ?u)"
    using p_hi by (intro mult_right_mono) simp_all
  ultimately have "round (fl (real e * s)) = int n"
    using f_lo f_hi by (intro round_near [OF _ _ n(2)]) linarith+
  then show ?thesis by (simp add: fmul_def s_def)
qed

text \<open>
  Claim C2. For an image whose width and height are integers from 1 to \<open>2 ^ 53\<close>, the
  range in which a double counts, under a rounding as above: the scale is the minimum of 1 and the rounded quotient of 1024 by the
  width, the width and height of the surface are the maximum of 1 and the rounded product
  of the dimension by the scale; both are at least 1, the width is at most 1024; for a
  width up to 1024 the scale is 1 and the surface has the dimensions of the image; a 2000
  by 1000 image gives a 1024 by 512 surface; a bound canvas gets these dimensions.
\<close>

theorem preview_size:
  assumes fl: "double_rounding fl" and w: "1 \<le> iw" "iw \<le> 2 ^ 53"
    and h: "1 \<le> ih" "ih \<le> 2 ^ 53"
  shows "preview_scale fl iw = min 1 (fdiv fl 1024 (real iw)) \<and>
         preview_width fl iw = max 1 (round (fmul fl (real iw) (preview_scale fl iw))) \<and>
         preview_height fl iw ih = max 1 (round (fmul fl (real ih) (preview_scale fl iw))) \<and>
         1 \<le> preview_width fl iw \<and> 1 \<le> preview_height fl iw ih \<and>
         preview_width fl iw \<le> 1024 \<and>
         (iw \<le> 1024 \<longrightarrow>
            preview_scale fl iw = 1 \<and> preview_width fl iw = int iw \<and>
            preview_height fl iw ih = int ih) \<and>
         (iw = 2000 \<and> ih = 1000 \<longrightarrow>
            preview_width fl iw = 1024 \<and> preview_height fl iw ih = 512) \<and>
         (\<forall>c. canvas s = Some c \<longrightarrow>
            canvas (img_onload fl iw ih s) =
              Some \<lparr>canvas_width = nat (preview_width fl iw),
                    canvas_height = nat (preview_height fl iw ih)\<rparr>)"
proof -
  have defs: "preview_scale fl iw = min 1 (fdiv fl 1024 (real iw))"
    "preview_width fl iw = max 1 (round (fmul fl (real iw) (preview_scale fl iw)))"
    "preview_height fl iw ih = max 1 (round (fmul fl (real ih) (preview_scale fl iw)))"
    using w by (simp_all add: preview_scale_def preview_width_def preview_height_def)
  have pos: "1 \<le> preview_width fl iw" "1 \<le> preview_height fl iw ih"
    by (simp_all add: preview_width_def preview_height_def)
  have small: "preview_scale fl iw = 1 \<and> preview_width fl iw = int iw \<and>
      preview_height fl iw ih = int ih" if "iw \<le> 1024"
    using preview_small [OF fl w(1) that h(2)] h(1) by simp
  have wide: "preview_width fl iw = 1024" if "1024 < iw"
  proof -
    have "round (fmul fl (real iw) (preview_scale fl iw)) = int 1024"
      using w that by (intro scaled_extent [OF fl]) simp_all
    then show ?thesis by (simp add: preview_width_def)
  qed
  have bound: "preview_width fl iw \<le> 1024"
  proof (cases "iw \<le> 1024")
    case True
    then show ?thesis using small by simp
  next
    case False
    then show ?thesis using wide by simp
  qed
  have sample: "preview_width fl iw = 1024 \<and> preview_height fl iw ih = 512"
    if "iw = 2000 \<and> ih = 1000"
  proof -
    have "round (fmul fl (real ih) (preview_scale fl iw)) = int 512"
      using that by (intro scaled_extent [OF fl]) simp_all
    then show ?thesis using that wide by (simp add: preview_height_def)
  qed
  have surface: "canvas (img_onload fl iw ih s) =
      Some \<lparr>canvas_width = nat (preview_width fl iw),
            canvas_height = nat (preview_height fl iw ih)\<rparr>" if "canvas s = Some c" for c
    using that by (simp add: img_onload_def)
  from defs pos small bound sample surface show ?thesis by blast
qed

theorem preview_size_witness:
  "double_rounding (\<lambda>x. x) \<and>
   preview_width (\<lambda>x. x) 2000 = 1024 \<and> preview_height (\<lambda>x. x) 2000 1000 = 512 \<and>
   preview_scale (\<lambda>x. x) 800 = 1 \<and>
   preview_width (\<lambda>x. x) 800 = 800 \<and> preview_height (\<lambda>x. x) 800 600 = 600 \<and>
   canvas (img_onload (\<lambda>x. x) 2000 1000 one_image) =
     Some \<lparr>canvas_width = 1024, canvas_height = 512\<rparr>"
proof -
  have c: "canvas one_image = Some \<lparr>canvas_width = 300, canvas_height = 150\<rparr>"
    by (simp add: one_image_fields)
  have n: "(1::nat) \<le> 2000" "(2000::nat) \<le> 2 ^ 53" "(1::nat) \<le> 1000" "(1000::nat) \<le> 2 ^ 53"
    and m: "(1::nat) \<le> 800" "(800::nat) \<le> 2 ^ 53" "(1::nat) \<le> 600" "(600::nat) \<le> 2 ^ 53"
    and k: "(800::nat) \<le> 1024"
    by simp_all
  note wide = preview_size [OF double_rounding_id n, of one_image]
  note small = preview_size [OF double_rounding_id m, of one_image]
  from wide have w: "preview_width (\<lambda>x. x) 2000 = 1024"
    and h: "preview_height (\<lambda>x. x) 2000 1000 = 512"
    by blast+
  from wide c have cv: "canvas (img_onload (\<lambda>x. x) 2000 1000 one_image) =
      Some \<lparr>canvas_width = nat (preview_width (\<lambda>x. x) 2000),
            canvas_height = nat (preview_height (\<lambda>x. x) 2000 1000)\<rparr>"
    by blast
  from small k have s: "preview_scale (\<lambda>x. x) 800 = 1"
    and sw: "preview_width (\<lambda>x. x) 800 = int 800"
    and sh: "preview_height (\<lambda>x. x) 800 600 = int 600"
    by blast+
  show ?thesis
    by (simp add: double_rounding_id w h cv s sw sh)
qed

section \<open>Properties of the sparkle layer\<close>

lemma js_rem_range:
  assumes "0 \<le> a" and "0 < d"
  shows "\<exists>x. js_rem a d = Some x \<and> 0 \<le> x \<and> x < d"
proof -
  have q: "0 \<le> a / d" using assms by simp
  then have t: "trunc (a / d) = \<lfloor>a / d\<rfloor>" by (simp add: trunc_def)
  have "of_int \<lfloor>a / d\<rfloor> * d \<le> a" using assms(2) by (rule floor_divide_lower)
  moreover have "a < (of_int \<lfloor>a / d\<rfloor> + 1) * d" using assms(2) by (rule floor_divide_upper)
  ultimately have "0 \<le> a - d * of_int \<lfloor>a / d\<rfloor>" and "a - d * of_int \<lfloor>a / d\<rfloor> < d"
    by (simp_all add: algebra_simps)
  then show ?thesis using assms(2) by (simp add: js_rem_def t)
qed

lemma nth_sparkles:
  assumes "i < length (sparkles fl math_sin math_cos s width height)"
  shows "sparkles fl math_sin math_cos s width height ! i =
    \<lparr>rect_x = spark_x fl math_sin s i width, rect_y = spark_y fl math_cos s i height,
     rect_w = spark_size fl s, rect_h = spark_size fl s\<rparr>"
  using assms by (simp add: sparkles_def)

text \<open>
  Claim C1. The rectangle of index \<open>i\<close> of the sparkle layer has the coordinates
  \<open>spark_x\<close> and \<open>spark_y\<close>, which are the remainders modulo the width and the height of
  \<open>|sin(i * 12.9898 + seed * 1.7) * 43758.5453|\<close> and \<open>|cos(i * 78.233 + seed * 0.9) * 12345.6789|\<close>,
  each operator rounding its result; with exact arithmetic they are these expressions as
  written. Two states with the same seed have the same coordinates at the same index, width
  and height, whatever their settings, and so have the rectangles of their layers; for a
  width and a height of at least 1 the coordinates are numbers within the surface.
\<close>

theorem sparkle_coordinates:
  "(i < length (sparkles fl math_sin math_cos s width height) \<longrightarrow>
      rect_x (sparkles fl math_sin math_cos s width height ! i) = spark_x fl math_sin s i width \<and>
      rect_y (sparkles fl math_sin math_cos s width height ! i) = spark_y fl math_cos s i height) \<and>
   spark_x fl math_sin s i width =
     js_rem \<bar>fmul fl (math_sin (fadd fl (fmul fl (real i) (fl 12.9898))
                                         (fmul fl (of_int (animationSeed s)) (fl 1.7))))
                     (fl 43758.5453)\<bar> width \<and>
   spark_y fl math_cos s i height =
     js_rem \<bar>fmul fl (math_cos (fadd fl (fmul fl (real i) (fl 78.233))
                                         (fmul fl (of_int (animationSeed s)) (fl 0.9))))
                     (fl 12345.6789)\<bar> height \<and>
   spark_x (\<lambda>x. x) sin s i width =
     js_rem \<bar>sin (real i * 12.9898 + of_int (animationSeed s) * 1.7) * 43758.5453\<bar> width \<and>
   spark_y (\<lambda>x. x) cos s i height =
     js_rem \<bar>cos (real i * 78.233 + of_int (animationSeed s) * 0.9) * 12345.6789\<bar> height \<and>
   (animationSeed t = animationSeed s \<longrightarrow>
      spark_x fl math_sin t i width = spark_x fl math_sin s i width \<and>
      spark_y fl math_cos t i height = spark_y fl math_cos s i height) \<and>
   (animationSeed t = animationSeed s \<and>
    i < length (sparkles fl math_sin math_cos s width height) \<and>
    i < length (sparkles fl math_sin math_cos t width height) \<longrightarrow>
      rect_x (sparkles fl math_sin math_cos t width height ! i) =
        rect_x (sparkles fl math_sin math_cos s width height ! i) \<and>
      rect_y (sparkles fl math_sin math_cos t width height ! i) =
        rect_y (sparkles fl math_sin math_cos s width height ! i)) \<and>
   (1 \<le> width \<and> 1 \<le> height \<longrightarrow>
      (\<exists>x y. spark_x fl math_sin s i width = Some x \<and> spark_y fl math_cos s i height = Some y \<and>
             0 \<le> x \<and> x < width \<and> 0 \<le> y \<and> y < height))"
proof -
  have range: "\<exists>x y. spark_x fl math_sin s i width = Some x \<and>
      spark_y fl math_cos s i height = Some y \<and> 0 \<le> x \<and> x < width \<and> 0 \<le> y \<and> y < height"
    if "1 \<le> width \<and> 1 \<le> height"
  proof -
    have "0 < width" "0 < height" using that by simp_all
    then obtain x y where "spark_x fl math_sin s i width = Some x \<and> 0 \<le> x \<and> x < width"
      and "spark_y fl math_cos s i height = Some y \<and> 0 \<le> y \<and> y < height"
      unfolding spark_x_def spark_y_def
      using js_rem_range [OF abs_ge_zero] by blast
    then show ?thesis by blast
  qed
  show ?thesis
    using range
    by (simp add: nth_sparkles) (simp add: spark_x_def spark_y_def fadd_def fmul_def)
qed

theorem sparkle_coordinates_witness:
  "length (sparkles (\<lambda>x. x) sin cos init_state 100 100) = 34 \<and>
   rect_x (sparkles (\<lambda>x. x) sin cos init_state 100 100 ! 0) = Some 0 \<and>
   rect_y (sparkles (\<lambda>x. x) sin cos init_state 100 100 ! 0) = Some 45.6789 \<and>
   spark_x (\<lambda>x. x) sin (init_state\<lparr>effectSettings := \<lparr>intensity = 1, grain = 1, tint = ''#000000''\<rparr>\<rparr>) 0 100
     = spark_x (\<lambda>x. x) sin init_state 0 100"
proof -
  have n: "length (sparkles (\<lambda>x. x) sin cos init_state 100 100) = 34"
    by (simp add: sparkles_def sparkCount_def fadd_def fmul_def init_state_def)
  have x: "spark_x (\<lambda>x. x) sin init_state 0 100 = Some 0"
    by (simp add: spark_x_def fadd_def fmul_def init_state_def js_rem_def trunc_def)
  have y: "spark_y (\<lambda>x. x) cos init_state 0 100 = Some 45.6789"
    by (simp add: spark_y_def fadd_def fmul_def init_state_def js_rem_def trunc_def)
  have s: "animationSeed (init_state\<lparr>effectSettings := \<lparr>intensity = 1, grain = 1, tint = ''#000000''\<rparr>\<rparr>)
      = animationSeed init_state"
    by simp
  show ?thesis
    using sparkle_coordinates [of 0 "\<lambda>x. x" sin cos init_state 100 100
        "init_state\<lparr>effectSettings := \<lparr>intensity = 1, grain = 1, tint = ''#000000''\<rparr>\<rparr>"]
      n x y s
    by simp
qed

lemma sin_lipschitz: "\<bar>sin a - sin b\<bar> \<le> \<bar>a - b\<bar>" for a b :: real
proof -
  have "\<bar>sin a - sin b\<bar> = 2 * \<bar>sin ((a - b) / 2)\<bar> * \<bar>cos ((a + b) / 2)\<bar>"
    by (simp add: sin_diff_sin abs_mult)
  also have "\<dots> \<le> 2 * \<bar>(a - b) / 2\<bar> * 1"
    by (intro mult_mono mult_left_mono abs_sin_x_le_abs_x abs_cos_le_one) simp_all
  finally show ?thesis by simp
qed

lemma taylor13:
  "(\<Sum>m<13. sin_coeff m * x ^ m) =
     x - x ^ 3 / 6 + x ^ 5 / 120 - x ^ 7 / 5040 + x ^ 9 / 362880 - x ^ 11 / 39916800"
  for x :: real
proof -
  have "{..<13::nat} = {0,1,2,3,4,5,6,7,8,9,10,11,12}" by auto arith
  then show ?thesis
    by (simp add: sin_coeff_def fact_numeral)
qed

lemma sin_17_bounds:
  "991664 / 10 ^ 6 \<le> sin (17 / 10 :: real)" "sin (17 / 10 :: real) \<le> 991665 / 10 ^ 6"
proof -
  have t: "(\<Sum>m<13. sin_coeff m * (17 / 10 :: real) ^ m)
      = 3958407964323559367 / 3991680000000000000"
    unfolding taylor13 by (simp add: power_divide)
  have e: "inverse (fact 13) * \<bar>17 / 10 :: real\<bar> ^ 13
      = 9904578032905937 / 62270208000000000000000"
    by (simp add: fact_numeral power_divide)
  have "\<bar>sin (17 / 10 :: real) - (\<Sum>m<13. sin_coeff m * (17 / 10) ^ m)\<bar>
      \<le> inverse (fact 13) * \<bar>17 / 10\<bar> ^ 13"
    by (rule Maclaurin_sin_bound)
  then have "\<bar>sin (17 / 10 :: real) - 3958407964323559367 / 3991680000000000000\<bar>
      \<le> 9904578032905937 / 62270208000000000000000"
    by (simp only: t e)
  then have "3958407964323559367 / 3991680000000000000
        - 9904578032905937 / 62270208000000000000000 \<le> sin (17 / 10 :: real)"
    and "sin (17 / 10 :: real) \<le> 3958407964323559367 / 3991680000000000000
        + 9904578032905937 / 62270208000000000000000"
    by (simp_all only: abs_diff_le_iff)
  moreover have "(991664 / 10 ^ 6 :: real) \<le> 3958407964323559367 / 3991680000000000000
        - 9904578032905937 / 62270208000000000000000"
    and "3958407964323559367 / 3991680000000000000
        + 9904578032905937 / 62270208000000000000000 \<le> (991665 / 10 ^ 6 :: real)"
    by simp_all
  ultimately show "991664 / 10 ^ 6 \<le> sin (17 / 10 :: real)"
    and "sin (17 / 10 :: real) \<le> 991665 / 10 ^ 6"
    by (blast intro: order_trans)+
qed

lemma fl_zero: "double_rounding fl \<Longrightarrow> fl 0 = 0"
  using fl_nat [of fl 0] by simp

lemma fl_unit:
  assumes "double_rounding fl" and "1 \<le> x" and "x \<le> 2"
  shows "x - 1 / 10 ^ 15 \<le> fl x" and "fl x \<le> x + 1 / 10 ^ 15"
proof -
  have "x * (1 - 1 / 2 ^ 53) \<le> fl x" and "fl x \<le> x * (1 + 1 / 2 ^ 53)"
    using assms by (intro fl_near; simp)+
  then have "x - x / 2 ^ 53 \<le> fl x" and "fl x \<le> x + x / 2 ^ 53"
    by (simp_all add: algebra_simps)
  moreover have "x / 2 ^ 53 \<le> 1 / 10 ^ 15" using assms(3) by simp
  ultimately show "x - 1 / 10 ^ 15 \<le> fl x" and "fl x \<le> x + 1 / 10 ^ 15"
    by linarith+
qed

lemma seed_one_argument:
  assumes fl: "double_rounding fl"
  defines "a \<equiv> fadd fl (fmul fl (real 0) (fl 12.9898)) (fmul fl (of_int 1) (fl 1.7))"
  shows "17 / 10 - 3 / 10 ^ 15 \<le> a" and "a \<le> 17 / 10 + 3 / 10 ^ 15"
proof -
  have a: "a = fl (fl (fl (17 / 10)))"
    by (simp add: a_def fadd_def fmul_def fl_zero [OF fl])
  have 1: "17 / 10 - 1 / 10 ^ 15 \<le> fl (17 / 10)" "fl (17 / 10) \<le> 17 / 10 + 1 / 10 ^ 15"
    by (rule fl_unit [OF fl]; simp)+
  then have "1 \<le> fl (17 / 10)" "fl (17 / 10) \<le> 2"
    by simp_all
  then have 2: "fl (17 / 10) - 1 / 10 ^ 15 \<le> fl (fl (17 / 10))"
    "fl (fl (17 / 10)) \<le> fl (17 / 10) + 1 / 10 ^ 15"
    by (rule fl_unit [OF fl])+
  with 1 have "1 \<le> fl (fl (17 / 10))" "fl (fl (17 / 10)) \<le> 2"
    by simp_all
  then have 3: "fl (fl (17 / 10)) - 1 / 10 ^ 15 \<le> fl (fl (fl (17 / 10)))"
    "fl (fl (fl (17 / 10))) \<le> fl (fl (17 / 10)) + 1 / 10 ^ 15"
    by (rule fl_unit [OF fl])+
  from 1 2 3 show "17 / 10 - 3 / 10 ^ 15 \<le> a" and "a \<le> 17 / 10 + 3 / 10 ^ 15"
    unfolding a by linarith+
qed

lemma seed_one_sine:
  assumes fl: "double_rounding fl" and ms: "sin_accurate math_sin"
  defines "a \<equiv> fadd fl (fmul fl (real 0) (fl 12.9898)) (fmul fl (of_int 1) (fl 1.7))"
  shows "99166 / 10 ^ 5 \<le> math_sin a" and "math_sin a \<le> 991667 / 10 ^ 6"
proof -
  note arg = seed_one_argument [OF fl, folded a_def]
  have "\<bar>a\<bar> \<le> 2" using arg by (simp add: abs_le_iff)
  then have "\<bar>math_sin a - sin a\<bar> \<le> 1 / 2 ^ 20"
    using ms by (simp add: sin_accurate_def)
  then have m: "sin a - 1 / 2 ^ 20 \<le> math_sin a" "math_sin a \<le> sin a + 1 / 2 ^ 20"
    by (simp_all only: abs_diff_le_iff)
  have "\<bar>a - 17 / 10\<bar> \<le> 3 / 10 ^ 15"
    using arg by (simp only: abs_diff_le_iff)
  with sin_lipschitz [of a "17 / 10"] have "\<bar>sin a - sin (17 / 10)\<bar> \<le> 3 / 10 ^ 15"
    by (rule order_trans)
  then have l: "sin (17 / 10) - 3 / 10 ^ 15 \<le> sin a" "sin a \<le> sin (17 / 10) + 3 / 10 ^ 15"
    by (simp_all only: abs_diff_le_iff)
  from m l sin_17_bounds show "99166 / 10 ^ 5 \<le> math_sin a" and "math_sin a \<le> 991667 / 10 ^ 6"
    by simp_all
qed

lemma seed_one_product:
  assumes fl: "double_rounding fl" and ms: "sin_accurate math_sin"
  defines "v \<equiv> fmul fl (math_sin (fadd fl (fmul fl (real 0) (fl 12.9898))
                                         (fmul fl (of_int 1) (fl 1.7))))
                       (fl 43758.5453)"
  shows "43393 < v" and "v < 43394"
proof -
  define m where "m = math_sin (fadd fl (fmul fl (real 0) (fl 12.9898))
                                        (fmul fl (of_int 1) (fl 1.7)))"
  define c where "c = fl 43758.5453"
  have m: "99166 / 10 ^ 5 \<le> m" "m \<le> 991667 / 10 ^ 6"
    unfolding m_def by (rule seed_one_sine [OF fl ms])+
  have "43758.5453 * (1 - 1 / 2 ^ 53) \<le> c" and "c \<le> 43758.5453 * (1 + 1 / 2 ^ 53)"
    unfolding c_def by (rule fl_near [OF fl]; simp)+
  then have c: "4375854 / 100 \<le> c" "c \<le> 4375855 / 100"
    by simp_all
  have "(99166 / 10 ^ 5) * (4375854 / 100) \<le> m * c"
    using m c by (intro mult_mono) simp_all
  then have lo: "433935 / 10 \<le> m * c" by simp
  have "m * c \<le> (991667 / 10 ^ 6) * (4375855 / 100)"
    using m c by (intro mult_mono) simp_all
  then have hi: "m * c \<le> 4339392 / 100" by simp
  have "m * c * (1 - 1 / 2 ^ 53) \<le> fl (m * c)" and "fl (m * c) \<le> m * c * (1 + 1 / 2 ^ 53)"
    using lo hi by (intro fl_near [OF fl]; simp)+
  moreover have "(433935 / 10) * (1 - 1 / 2 ^ 53) \<le> m * c * (1 - 1 / 2 ^ 53)"
    using lo by (intro mult_right_mono) simp_all
  moreover have "m * c * (1 + 1 / 2 ^ 53) \<le> (4339392 / 100) * (1 + 1 / 2 ^ 53)"
    using hi by (intro mult_right_mono) simp_all
  moreover have "(43393 :: real) < (433935 / 10) * (1 - 1 / 2 ^ 53)"
    and "(4339392 / 100) * (1 + 1 / 2 ^ 53) < (43394 :: real)"
    by simp_all
  ultimately have "43393 < fl (m * c)" and "fl (m * c) < 43394"
    by linarith+
  then show "43393 < v" and "v < 43394"
    by (simp_all add: v_def fmul_def m_def c_def)
qed

lemma js_rem_fraction:
  assumes "real_of_int k < v" and "v < real_of_int k + 1" and "1 \<le> w"
  shows "js_rem \<bar>v\<bar> (real w) \<noteq> Some 0"
proof
  assume "js_rem \<bar>v\<bar> (real w) = Some 0"
  then have "\<bar>v\<bar> = real w * of_int (trunc (\<bar>v\<bar> / real w))"
    using assms(3) by (simp add: js_rem_def)
  then have "\<bar>v\<bar> = of_int (int w * trunc (\<bar>v\<bar> / real w))"
    by simp
  then obtain j :: int where j: "\<bar>v\<bar> = of_int j" ..
  show False
  proof (cases "0 \<le> v")
    case True
    with j assms(1,2) have "k < j" "j < k + 1"
      by (simp_all flip: of_int_less_iff)
    then show False by simp
  next
    case False
    with j have "v = of_int (- j)" by simp
    with assms(1,2) have "k < - j" "- j < k + 1"
      by (simp_all flip: of_int_less_iff)
    then show False by simp
  qed
qed

lemma spark_x_seed_zero:
  assumes fl: "double_rounding fl" and ms: "sin_accurate math_sin"
    and s: "animationSeed s = 0" and w: "1 \<le> w"
  shows "spark_x fl math_sin s 0 (real w) = Some 0"
  using ms w by (simp add: spark_x_def fadd_def fmul_def s fl_zero [OF fl] sin_accurate_def
      js_rem_def trunc_def)

lemma spark_x_seed_one:
  assumes fl: "double_rounding fl" and ms: "sin_accurate math_sin"
    and s: "animationSeed s = 1" and w: "1 \<le> w"
  shows "spark_x fl math_sin s 0 (real w) \<noteq> Some 0"
proof -
  note p = seed_one_product [OF fl ms]
  have "js_rem \<bar>fmul fl (math_sin (fadd fl (fmul fl (real 0) (fl 12.9898))
                                         (fmul fl (of_int 1) (fl 1.7))))
                       (fl 43758.5453)\<bar> (real w) \<noteq> Some 0"
    using p w by (intro js_rem_fraction [where k = 43393]) simp_all
  then show ?thesis unfolding spark_x_def s .
qed

text \<open>
  Claim C9. Under a rounding and a \<^verbatim>\<open>Math.sin\<close> as above, for a surface of width and
  height at least 1: when the seed is 0, the refresh makes it 1, and the pair of
  coordinates of the sample of index 0 after the refresh differs from the pair before it.
\<close>

theorem seed_changes_sparkle:
  assumes "double_rounding fl" and "sin_accurate math_sin"
    and "animationSeed s = 0" and "1 \<le> w" and "1 \<le> h"
  shows "animationSeed (refreshDummyEffect s) = 1 \<and>
         (spark_x fl math_sin (refreshDummyEffect s) 0 (real w),
          spark_y fl math_cos (refreshDummyEffect s) 0 (real h)) \<noteq>
         (spark_x fl math_sin s 0 (real w), spark_y fl math_cos s 0 (real h))"
proof -
  have r: "animationSeed (refreshDummyEffect s) = 1"
    using assms(3) by (simp add: refreshDummyEffect_def)
  have "spark_x fl math_sin (refreshDummyEffect s) 0 (real w) \<noteq> spark_x fl math_sin s 0 (real w)"
    using spark_x_seed_one [OF assms(1,2) r assms(4)]
      spark_x_seed_zero [OF assms(1,2,3,4)] by simp
  with r show ?thesis by simp
qed

lemma sin_accurate_sin: "sin_accurate sin"
  by (simp add: sin_accurate_def)

theorem seed_changes_sparkle_witness:
  "double_rounding (\<lambda>x. x) \<and> sin_accurate sin \<and> animationSeed init_state = 0 \<and>
   animationSeed (refreshDummyEffect init_state) = 1 \<and>
   (spark_x (\<lambda>x. x) sin (refreshDummyEffect init_state) 0 1024,
    spark_y (\<lambda>x. x) cos (refreshDummyEffect init_state) 0 512) \<noteq>
   (spark_x (\<lambda>x. x) sin init_state 0 1024, spark_y (\<lambda>x. x) cos init_state 0 512)"
proof -
  have s: "animationSeed init_state = 0" by (simp add: init_state_def)
  have w: "(1::nat) \<le> 1024" and h: "(1::nat) \<le> 512" by simp_all
  show ?thesis
    using seed_changes_sparkle [OF double_rounding_id sin_accurate_sin s w h, of cos]
      double_rounding_id sin_accurate_sin s
    by simp
qed

end
